theory Spec2Isabelle
  imports Main "HOL-Library.Multiset" "HOL-Library.AList"
begin

section \<open>Data model of \<open>utils/dish_generator.py\<close>\<close>

text \<open>
  The exceptions the function can let escape. The source has no \<open>raise\<close> of its own;
  these are the implicit ones: \<open>rooms['K']\<close> on a dictionary without that key, a
  \<open>range\<close> over a slice bound that is \<open>None\<close>, and a numpy index out of bounds.
\<close>

datatype error = KeyError | TypeError | IndexError

text \<open>
  A Python \<open>slice\<close> object, of which the code reads \<open>.start\<close> and \<open>.stop\<close> only;
  either may be \<open>None\<close>.
\<close>

record slice =
  start :: "int option"
  stop :: "int option"

text \<open>
  The grid is a two-dimensional numpy array of one-character labels, kept here as the list
  of its rows. Arrays live in a store, addressed by position, because the function copies
  its argument and writes to the copy: \<open>grid.copy()\<close> allocates a new array at the end of
  the store.
\<close>

type_synonym ndarray = "char list list"
type_synonym heap = "ndarray list"
type_synonym addr = nat

text \<open>
  The preference dictionary keeps insertion order, as Python's \<open>dict\<close> does: an
  association list, written with \<^const>\<open>AList.update\<close> (replace in place, or append).
\<close>

type_synonym preferences = "(int \<times> string) list"
type_synonym dish = "int \<times> int \<times> string"

text \<open>
  The process-wide random generator: an unbounded supply of raw draws. \<open>randbelow n\<close>
  consumes one draw and returns a number below \<open>n\<close>; \<open>random.choice\<close> and
  \<open>random.shuffle\<close> are built on it as in CPython's \<open>random.py\<close>.
\<close>

type_synonym rng = "nat \<Rightarrow> nat"

definition randbelow :: "nat \<Rightarrow> rng \<Rightarrow> nat \<times> rng" where
  "randbelow n g = (g 0 mod n, (\<lambda>k. g (Suc k)))"

definition choice :: "'a list \<Rightarrow> rng \<Rightarrow> 'a \<times> rng" where
  "choice seq g = (let (j, g') = randbelow (length seq) g in (seq ! j, g'))"

text \<open>
  \<open>random.shuffle(x)\<close>: for \<open>i\<close> from \<open>len(x) - 1\<close> down to \<open>1\<close>, pick
  \<open>j = randbelow(i + 1)\<close> and swap \<open>x[i]\<close> with \<open>x[j]\<close>.
\<close>

fun shuffle_from :: "nat \<Rightarrow> 'a list \<Rightarrow> rng \<Rightarrow> 'a list \<times> rng" where
  "shuffle_from 0 x g = (x, g)"
| "shuffle_from (Suc i) x g =
     (let (j, g') = randbelow (Suc (Suc i)) g
      in shuffle_from i (x[Suc i := x ! j, j := x ! Suc i]) g')"

definition shuffle :: "'a list \<Rightarrow> rng \<Rightarrow> 'a list \<times> rng" where
  "shuffle x g = shuffle_from (length x - 1) x g"

subsection \<open>numpy indexing\<close>

text \<open>
  An index into an axis of length \<open>n\<close>: \<open>0 \<le> i < n\<close> is itself, \<open>-n \<le> i < 0\<close> counts
  from the end, anything else raises \<open>IndexError\<close>.
\<close>

definition np_index :: "nat \<Rightarrow> int \<Rightarrow> nat option" where
  "np_index n i =
     (if 0 \<le> i \<and> i < int n then Some (nat i)
      else if - int n \<le> i \<and> i < 0 then Some (nat (i + int n))
      else None)"

definition grid_get :: "ndarray \<Rightarrow> int \<Rightarrow> int \<Rightarrow> error + char" where
  "grid_get grid row col =
     (case np_index (length grid) row of
        None \<Rightarrow> Inl IndexError
      | Some r \<Rightarrow>
          (case np_index (length (grid ! r)) col of
             None \<Rightarrow> Inl IndexError
           | Some c \<Rightarrow> Inr (grid ! r ! c)))"

definition grid_set :: "ndarray \<Rightarrow> int \<Rightarrow> int \<Rightarrow> char \<Rightarrow> error + ndarray" where
  "grid_set grid row col v =
     (case np_index (length grid) row of
        None \<Rightarrow> Inl IndexError
      | Some r \<Rightarrow>
          (case np_index (length (grid ! r)) col of
             None \<Rightarrow> Inl IndexError
           | Some c \<Rightarrow> Inr (grid[r := (grid ! r)[c := v]])))"

text \<open>\<open>range(a, b)\<close> over Python integers.\<close>

definition range_int :: "int \<Rightarrow> int \<Rightarrow> int list" where
  "range_int a b = [a..b - 1]"

section \<open>The preference allocator (lines 34 to 53)\<close>

definition preference_labels :: "string list" where
  "preference_labels = [''vegan'', ''non-vegetarian'']"

definition count_pref :: "string \<Rightarrow> preferences \<Rightarrow> nat" where
  "count_pref label person_preferences =
     length (filter (\<lambda>p. p = label) (map snd person_preferences))"

text \<open>The body of the loop for index \<open>i\<close>, on the dictionary and the generator.\<close>

definition assign_step :: "nat \<Rightarrow> nat \<Rightarrow> preferences \<times> rng \<Rightarrow> preferences \<times> rng" where
  "assign_step num_people i s =
     (let (person_preferences, g) = s;
          person_num = int i + 1
      in if i < num_people div 2 then
           (let (p, g') = choice preference_labels g
            in (AList.update person_num p person_preferences, g'))
         else
           (let remaining_vegan = count_pref ''vegan'' person_preferences;
                remaining_non_veg = count_pref ''non-vegetarian'' person_preferences
            in if remaining_vegan = 0 then
                 (AList.update person_num ''vegan'' person_preferences, g)
               else if remaining_non_veg = 0 then
                 (AList.update person_num ''non-vegetarian'' person_preferences, g)
               else
                 (let (p, g') = choice preference_labels g
                  in (AList.update person_num p person_preferences, g'))))"

definition assign_preferences :: "nat \<Rightarrow> rng \<Rightarrow> preferences \<times> rng" where
  "assign_preferences num_people g = fold (assign_step num_people) [0..<num_people] ([], g)"

section \<open>The cell eligibility scan (lines 56 to 63)\<close>

text \<open>
  The inner loop over the columns of one row. The test short-circuits: an occupied
  position is skipped before the grid is read, so it cannot raise.
\<close>

fun scan_cols ::
  "ndarray \<Rightarrow> (int \<times> int) set \<Rightarrow> int \<Rightarrow> int list \<Rightarrow> (int \<times> int) list \<Rightarrow> error + (int \<times> int) list"
where
  "scan_cols grid occupied_positions row [] valid = Inr valid"
| "scan_cols grid occupied_positions row (col # cols) valid =
     (if (row, col) \<in> occupied_positions then scan_cols grid occupied_positions row cols valid
      else
        (case grid_get grid row col of
           Inl e \<Rightarrow> Inl e
         | Inr cell \<Rightarrow>
             if cell \<notin> set ''WdkF'' \<and> cell = CHR ''K''
             then scan_cols grid occupied_positions row cols (valid @ [(row, col)])
             else scan_cols grid occupied_positions row cols valid))"

text \<open>
  The outer loop over the rows; \<open>range(kitchen_cols.start, kitchen_cols.stop)\<close> is
  evaluated once for each row.
\<close>

fun scan_rows ::
  "ndarray \<Rightarrow> (int \<times> int) set \<Rightarrow> slice \<Rightarrow> int list \<Rightarrow> (int \<times> int) list \<Rightarrow> error + (int \<times> int) list"
where
  "scan_rows grid occupied_positions kitchen_cols [] valid = Inr valid"
| "scan_rows grid occupied_positions kitchen_cols (row # rows) valid =
     (case (start kitchen_cols, stop kitchen_cols) of
        (Some c0, Some c1) \<Rightarrow>
          (case scan_cols grid occupied_positions row (range_int c0 c1) valid of
             Inl e \<Rightarrow> Inl e
           | Inr valid' \<Rightarrow> scan_rows grid occupied_positions kitchen_cols rows valid')
      | _ \<Rightarrow> Inl TypeError)"

definition valid_kitchen_positions ::
  "ndarray \<Rightarrow> slice \<Rightarrow> slice \<Rightarrow> (int \<times> int) set \<Rightarrow> error + (int \<times> int) list"
where
  "valid_kitchen_positions grid kitchen_rows kitchen_cols occupied_positions =
     (case (start kitchen_rows, stop kitchen_rows) of
        (Some r0, Some r1) \<Rightarrow>
          scan_rows grid occupied_positions kitchen_cols (range_int r0 r1) []
      | _ \<Rightarrow> Inl TypeError)"

section \<open>Placement (lines 70 to 94)\<close>

definition dish_type_name :: "char \<Rightarrow> string" where
  "dish_type_name dish_type = (if dish_type = CHR ''V'' then ''vegan'' else ''non-vegetarian'')"

text \<open>
  The loop over \<open>enumerate(dishes_to_place)\<close>, on the store holding the copy at
  \<open>grid_copy\<close> and on \<open>dish_positions\<close>. The \<open>print\<close> of the other branch is not
  modelled.
\<close>

fun place_dishes ::
  "(int \<times> int) list \<Rightarrow> addr \<Rightarrow> (nat \<times> char) list \<Rightarrow> heap \<times> dish list \<Rightarrow> error + heap \<times> dish list"
where
  "place_dishes valid grid_copy [] s = Inr s"
| "place_dishes valid grid_copy ((i, dish_type) # rest) s =
     (let (h, dish_positions) = s
      in if i < length valid then
           (let (row, col) = valid ! i
            in case grid_set (h ! grid_copy) row col dish_type of
                 Inl e \<Rightarrow> Inl e
               | Inr g' \<Rightarrow>
                   place_dishes valid grid_copy rest
                     (h[grid_copy := g'], dish_positions @ [(row, col, dish_type_name dish_type)]))
         else place_dishes valid grid_copy rest (h, dish_positions))"

section \<open>\<open>generate_dishes_and_preferences\<close>\<close>

text \<open>
  The whole function, on the store \<open>h\<close> with the input array at address \<open>grid\<close>. It
  returns the store after the call with the address of the copy, the preference
  dictionary and the dish list. The two warnings printed when there are fewer positions
  than people have no effect on the result and are left out.
\<close>

definition generate_dishes_and_preferences ::
  "heap \<Rightarrow> addr \<Rightarrow> (string \<rightharpoonup> slice \<times> slice) \<Rightarrow> (int \<times> int) list \<Rightarrow> (int \<times> int) set \<Rightarrow> rng
     \<Rightarrow> error + heap \<times> addr \<times> preferences \<times> dish list"
where
  "generate_dishes_and_preferences h grid rooms people_positions occupied_positions g =
     (case rooms ''K'' of
        None \<Rightarrow> Inl KeyError
      | Some (kitchen_rows, kitchen_cols) \<Rightarrow>
          (let num_people = length people_positions;
               (person_preferences, g1) = assign_preferences num_people g
           in case valid_kitchen_positions (h ! grid) kitchen_rows kitchen_cols occupied_positions of
                Inl e \<Rightarrow> Inl e
              | Inr valid \<Rightarrow>
                  (let grid_copy = length h;
                       h1 = h @ [h ! grid];
                       (valid', g2) = shuffle valid g1;
                       vegan_count = count_pref ''vegan'' person_preferences;
                       non_veg_count = count_pref ''non-vegetarian'' person_preferences;
                       dishes_to_place =
                         replicate vegan_count (CHR ''V'') @ replicate non_veg_count (CHR ''N'');
                       (dishes_to_place', g3) = shuffle dishes_to_place g2
                   in case place_dishes valid' grid_copy (List.enumerate 0 dishes_to_place') (h1, []) of
                        Inl e \<Rightarrow> Inl e
                      | Inr (h2, dish_positions) \<Rightarrow>
                          Inr (h2, grid_copy, person_preferences, dish_positions))))"

section \<open>The query functions\<close>

definition get_person_dietary_preference :: "int \<Rightarrow> preferences \<Rightarrow> string" where
  "get_person_dietary_preference person_number person_preferences =
     (case map_of person_preferences person_number of
        Some p \<Rightarrow> p
      | None \<Rightarrow> ''unknown'')"

definition find_dishes_by_type :: "dish list \<Rightarrow> string \<Rightarrow> (int \<times> int) list" where
  "find_dishes_by_type dish_positions dish_type =
     map (\<lambda>(row, col, dtype). (row, col))
       (filter (\<lambda>(row, col, dtype). dtype = dish_type) dish_positions)"

record summary =
  total_people :: nat
  vegan_people :: "int list"
  non_vegetarian_people :: "int list"
  vegan_people_count :: nat
  non_vegetarian_people_count :: nat
  vegan_dishes_positions :: "(int \<times> int) list"
  non_vegetarian_dishes_positions :: "(int \<times> int) list"
  vegan_dishes_count :: nat
  non_vegetarian_dishes_count :: nat

definition get_dish_assignment_summary :: "preferences \<Rightarrow> dish list \<Rightarrow> summary" where
  "get_dish_assignment_summary person_preferences dish_positions =
     (let vegan_people = map fst (filter (\<lambda>(p, pref). pref = ''vegan'') person_preferences);
          non_veg_people =
            map fst (filter (\<lambda>(p, pref). pref = ''non-vegetarian'') person_preferences);
          vegan_dishes = find_dishes_by_type dish_positions ''vegan'';
          non_veg_dishes = find_dishes_by_type dish_positions ''non-vegetarian''
      in \<lparr> total_people = length person_preferences,
           vegan_people = vegan_people,
           non_vegetarian_people = non_veg_people,
           vegan_people_count = length vegan_people,
           non_vegetarian_people_count = length non_veg_people,
           vegan_dishes_positions = vegan_dishes,
           non_vegetarian_dishes_positions = non_veg_dishes,
           vegan_dishes_count = length vegan_dishes,
           non_vegetarian_dishes_count = length non_veg_dishes \<rparr>)"

section \<open>Auxiliary notions\<close>

text \<open>
  What the dictionary looks like after \<open>k\<close> rounds of the allocation loop: the keys are
  \<open>1, \<dots>, k\<close> in insertion order and every value is one of the two labels.
\<close>

definition keys_labels :: "nat \<Rightarrow> preferences \<Rightarrow> bool" where
  "keys_labels k ps \<longleftrightarrow>
     map fst ps = map int [1..<Suc k] \<and> snd ` set ps \<subseteq> {''vegan'', ''non-vegetarian''}"

text \<open>The test of line 60 to 62 as a predicate on a position.\<close>

definition eligible :: "ndarray \<Rightarrow> (int \<times> int) set \<Rightarrow> int \<times> int \<Rightarrow> bool" where
  "eligible grid occ p \<longleftrightarrow> p \<notin> occ \<and> grid_get grid (fst p) (snd p) = Inr (CHR ''K'')"

text \<open>The indices a slice ranges over, empty when a bound is missing.\<close>

definition indices_of :: "slice \<Rightarrow> int list" where
  "indices_of s = (case (start s, stop s) of (Some a, Some b) \<Rightarrow> range_int a b | _ \<Rightarrow> [])"

text \<open>The entry appended to \<open>dish_positions\<close> for a position paired with a dish character.\<close>

definition entry :: "(int \<times> int) \<times> char \<Rightarrow> dish" where
  "entry pd = (fst (fst pd), snd (fst pd), dish_type_name (snd pd))"

text \<open>
  The cell of the array that numpy addresses with a pair of indices, if any: a negative
  index names the same cell as its counterpart counted from the front.
\<close>

definition cell_of :: "ndarray \<Rightarrow> int \<times> int \<Rightarrow> (nat \<times> nat) option" where
  "cell_of grid p =
     (case np_index (length grid) (fst p) of
        None \<Rightarrow> None
      | Some r \<Rightarrow>
          (case np_index (length (grid ! r)) (snd p) of
             None \<Rightarrow> None
           | Some c \<Rightarrow> Some (r, c)))"

subsection \<open>A small house used for the concrete runs\<close>

text \<open>
  Rows 1 and 2, columns 1 and 2 are the kitchen: three floor cells and a counter. Row 3 is
  another room, where the people stand.
\<close>

definition example_grid :: ndarray where
  "example_grid = [''WWWWW'', ''WKKWW'', ''WKkWW'', ''LLLLL'']"

definition example_rooms :: "string \<rightharpoonup> slice \<times> slice" where
  "example_rooms =
     [''K'' \<mapsto> (\<lparr>start = Some 1, stop = Some 3\<rparr>, \<lparr>start = Some 1, stop = Some 3\<rparr>)]"

definition example_people :: "(int \<times> int) list" where
  "example_people = [(3, 0), (3, 2)]"

definition example_crowd :: "(int \<times> int) list" where
  "example_crowd = [(3, 0), (3, 1), (3, 2), (3, 3), (3, 4)]"

definition example_rng :: rng where
  "example_rng = (\<lambda>k. k)"

text \<open>The example grid after the runs with two, five and one people.\<close>

definition example_served :: ndarray where
  "example_served = [''WWWWW'', ''WNKWW'', ''WVkWW'', ''LLLLL'']"

definition example_crowd_served :: ndarray where
  "example_crowd_served = [''WWWWW'', ''WNVWW'', ''WNkWW'', ''LLLLL'']"

definition example_single_served :: ndarray where
  "example_single_served = [''WWWWW'', ''WKKWW'', ''WVkWW'', ''LLLLL'']"

section \<open>The random primitives permute\<close>

lemma mset_shuffle_from:
  "i < length x \<Longrightarrow> mset (fst (shuffle_from i x g)) = mset x"
proof (induction i arbitrary: x g)
  case 0
  show ?case by simp
next
  case (Suc i)
  define j where "j = g 0 mod Suc (Suc i)"
  define x' where "x' = x[Suc i := x ! j, j := x ! Suc i]"
  have "j < Suc (Suc i)" unfolding j_def by simp
  with Suc.prems have j: "j < length x" by simp
  have m: "mset x' = mset x" unfolding x'_def using mset_swap[OF j Suc.prems] .
  have l: "i < length x'" using Suc.prems by (simp add: x'_def)
  have "shuffle_from (Suc i) x g = shuffle_from i x' (\<lambda>k. g (Suc k))"
    by (simp add: randbelow_def j_def x'_def)
  with Suc.IH[OF l] m show ?case by simp
qed

lemma mset_shuffle: "mset (fst (shuffle x g)) = mset x"
proof (cases x)
  case Nil
  then show ?thesis by (simp add: shuffle_def)
next
  case (Cons a as)
  then have "length x - 1 < length x" by simp
  then show ?thesis unfolding shuffle_def by (rule mset_shuffle_from)
qed

lemma choice_labels:
  "fst (choice preference_labels g) = ''vegan''
     \<or> fst (choice preference_labels g) = ''non-vegetarian''"
proof -
  have nth: "j < 2 \<Longrightarrow> [''vegan'', ''non-vegetarian''] ! j = ''vegan''
      \<or> [''vegan'', ''non-vegetarian''] ! j = ''non-vegetarian''" for j
    using less_2_cases[of j] by auto
  have "fst (choice preference_labels g) = [''vegan'', ''non-vegetarian''] ! (g 0 mod 2)"
    by (simp add: choice_def randbelow_def preference_labels_def numeral_2_eq_2)
  with nth[of "g 0 mod 2"] show ?thesis by simp
qed

section \<open>The allocation loop\<close>


lemma update_fresh: "k \<notin> fst ` set al \<Longrightarrow> AList.update k v al = al @ [(k, v)]"
  by (induction al) auto


lemma count_pref_zero: "count_pref l ps = 0 \<longleftrightarrow> l \<notin> snd ` set ps"
  by (auto simp: count_pref_def filter_empty_conv)

lemma keys_labels_fresh: "keys_labels k ps \<Longrightarrow> int k + 1 \<notin> fst ` set ps"
proof -
  assume "keys_labels k ps"
  then have "fst ` set ps = int ` {1..<Suc k}"
    unfolding keys_labels_def by (metis set_map set_upt)
  then show ?thesis by auto
qed

lemma assign_step_append:
  assumes "keys_labels i ps"
  shows "\<exists>p. fst (assign_step n i (ps, g)) = ps @ [(int i + 1, p)]
           \<and> (p = ''vegan'' \<or> p = ''non-vegetarian'')
           \<and> (\<not> i < n div 2 \<longrightarrow> ''vegan'' \<notin> snd ` set ps \<longrightarrow> p = ''vegan'')
           \<and> (\<not> i < n div 2 \<longrightarrow> ''non-vegetarian'' \<notin> snd ` set ps \<longrightarrow> ''vegan'' \<in> snd ` set ps \<longrightarrow> p = ''non-vegetarian'')"
proof -
  note fr = update_fresh[OF keys_labels_fresh[OF assms]]
  obtain p g' where c: "choice preference_labels g = (p, g')" by (cases "choice preference_labels g")
  with choice_labels[of g] have pl: "p = ''vegan'' \<or> p = ''non-vegetarian''" by simp
  show ?thesis
    using pl by (auto simp: assign_step_def c fr count_pref_zero Let_def)
qed

lemma keys_labels_step:
  assumes "keys_labels i ps"
  shows "keys_labels (Suc i) (fst (assign_step n i (ps, g)))"
proof -
  from assign_step_append[OF assms, of n g] obtain p where
    e: "fst (assign_step n i (ps, g)) = ps @ [(int i + 1, p)]" and pl: "p = ''vegan'' \<or> p = ''non-vegetarian''"
    by blast
  show ?thesis using assms pl unfolding e keys_labels_def by auto
qed

lemma assign_fold_Suc:
  "fold (assign_step n) [0..<Suc k] s = assign_step n k (fold (assign_step n) [0..<k] s)"
  by simp

lemma keys_labels_fold: "keys_labels k (fst (fold (assign_step n) [0..<k] ([], g)))"
proof (induction k)
  case 0
  show ?case by (simp add: keys_labels_def)
next
  case (Suc k)
  obtain ps g' where s: "fold (assign_step n) [0..<k] ([], g) = (ps, g')"
    by (cases "fold (assign_step n) [0..<k] ([], g)")
  with Suc have "keys_labels k ps" by simp
  from keys_labels_step[OF this, of n g'] show ?case
    by (simp add: s)
qed

lemma both_labels_fold:
  assumes "2 \<le> n" "n div 2 < k"
  shows "{''vegan'', ''non-vegetarian''} \<subseteq> snd ` set (fst (fold (assign_step n) [0..<k] ([], g)))"
  using assms(2)
proof (induction k)
  case 0
  then show ?case by simp
next
  case (Suc k)
  obtain ps g' where s: "fold (assign_step n) [0..<k] ([], g) = (ps, g')"
    by (cases "fold (assign_step n) [0..<k] ([], g)")
  have kl: "keys_labels k ps" using keys_labels_fold[of k n g] by (simp add: s)
  from assign_step_append[OF kl, of n g'] obtain p where
    e: "fst (assign_step n k (ps, g')) = ps @ [(int k + 1, p)]"
    and pl: "p = ''vegan'' \<or> p = ''non-vegetarian''"
    and fv: "\<not> k < n div 2 \<longrightarrow> ''vegan'' \<notin> snd ` set ps \<longrightarrow> p = ''vegan''"
    and fn: "\<not> k < n div 2 \<longrightarrow> ''non-vegetarian'' \<notin> snd ` set ps \<longrightarrow> ''vegan'' \<in> snd ` set ps \<longrightarrow> p = ''non-vegetarian''"
    by blast
  have res: "fst (fold (assign_step n) [0..<Suc k] ([], g)) = ps @ [(int k + 1, p)]"
    by (simp add: s e)
  show ?case
  proof (cases "n div 2 < k")
    case True
    with Suc.IH have "{''vegan'', ''non-vegetarian''} \<subseteq> snd ` set ps" by (simp add: s)
    then show ?thesis unfolding res by auto
  next
    case False
    with Suc.prems have k: "k = n div 2" by simp
    with assms(1) have "0 < k" by simp
    with kl have "ps \<noteq> []" unfolding keys_labels_def by auto
    then obtain q where q: "q \<in> snd ` set ps" by (cases ps) auto
    with kl have ql: "q = ''vegan'' \<or> q = ''non-vegetarian''" unfolding keys_labels_def by auto
    have nk: "\<not> k < n div 2" using k by simp
    show ?thesis
    proof (cases "''vegan'' \<in> snd ` set ps")
      case True
      show ?thesis
      proof (cases "''non-vegetarian'' \<in> snd ` set ps")
        case True
        with \<open>''vegan'' \<in> snd ` set ps\<close> show ?thesis unfolding res by auto
      next
        case False
        with fn nk True have "p = ''non-vegetarian''" by simp
        with True show ?thesis unfolding res by auto
      qed
    next
      case False
      with fv nk have pv: "p = ''vegan''" by simp
      from False q ql have "''non-vegetarian'' \<in> snd ` set ps" by metis
      with pv show ?thesis unfolding res by auto
    qed
  qed
qed

section \<open>The scan as a filter\<close>

lemma scan_cols_filter:
  "scan_cols grid occ row cols valid = Inr valid' \<Longrightarrow>
   valid' = valid @ filter (eligible grid occ) (map (Pair row) cols)"
proof (induction cols arbitrary: valid)
  case Nil
  then show ?case by simp
next
  case (Cons col cols)
  show ?case
  proof (cases "(row, col) \<in> occ")
    case True
    with Cons.prems have "scan_cols grid occ row cols valid = Inr valid'" by simp
    from Cons.IH[OF this] True show ?thesis by (simp add: eligible_def)
  next
    case False
    with Cons.prems obtain cell where c: "grid_get grid row col = Inr cell"
      by (auto split: sum.splits)
    show ?thesis
    proof (cases "cell = CHR ''K''")
      case True
      with Cons.prems False c have "scan_cols grid occ row cols (valid @ [(row, col)]) = Inr valid'"
        by simp
      from Cons.IH[OF this] True False c show ?thesis by (simp add: eligible_def)
    next
      case F: False
      with Cons.prems False c have "scan_cols grid occ row cols valid = Inr valid'" by simp
      from Cons.IH[OF this] F False c show ?thesis by (simp add: eligible_def)
    qed
  qed
qed

lemma scan_rows_filter:
  "scan_rows grid occ kc rows valid = Inr valid' \<Longrightarrow>
   valid' = valid @ filter (eligible grid occ) (List.product rows (indices_of kc))"
proof (induction rows arbitrary: valid)
  case Nil
  then show ?case by simp
next
  case (Cons row rows)
  from Cons.prems obtain c0 c1 v1 where
    b: "start kc = Some c0" "stop kc = Some c1"
    and s1: "scan_cols grid occ row (range_int c0 c1) valid = Inr v1"
    and s2: "scan_rows grid occ kc rows v1 = Inr valid'"
    by (auto split: option.splits sum.splits)
  from b have co: "indices_of kc = range_int c0 c1" by (simp add: indices_of_def)
  from scan_cols_filter[OF s1] Cons.IH[OF s2] show ?case by (simp add: co)
qed

lemma valid_kitchen_positions_filter:
  assumes "valid_kitchen_positions grid kr kc occ = Inr valid"
  shows "valid = filter (eligible grid occ) (List.product (indices_of kr) (indices_of kc))"
proof -
  from assms obtain r0 r1 where b: "start kr = Some r0" "stop kr = Some r1"
    and s: "scan_rows grid occ kc (range_int r0 r1) [] = Inr valid"
    by (auto simp: valid_kitchen_positions_def split: option.splits)
  from b have "indices_of kr = range_int r0 r1" by (simp add: indices_of_def)
  with scan_rows_filter[OF s] show ?thesis by simp
qed

lemma in_indices_of:
  "x \<in> set (indices_of s) \<longleftrightarrow> (\<exists>a b. start s = Some a \<and> stop s = Some b \<and> a \<le> x \<and> x < b)"
  by (cases "start s"; cases "stop s") (auto simp: indices_of_def range_int_def)

lemma distinct_indices_of: "distinct (indices_of s)"
  by (simp add: indices_of_def range_int_def split: option.splits)

lemma distinct_valid_kitchen_positions:
  "valid_kitchen_positions grid kr kc occ = Inr valid \<Longrightarrow> distinct valid"
  by (drule valid_kitchen_positions_filter) (simp add: distinct_product distinct_indices_of)

section \<open>Writes to the grid and the placement loop\<close>

lemma np_index_less: "np_index n i = Some k \<Longrightarrow> k < n"
  by (auto simp: np_index_def split: if_splits)

lemma np_index_nonneg: "0 \<le> i \<Longrightarrow> np_index n i = (if nat i < n then Some (nat i) else None)"
  by (auto simp: np_index_def)

lemma shape_update: "map length (g[r := (g ! r)[c := v]]) = map length g"
proof (rule nth_equalityI)
  show "length (map length (g[r := (g ! r)[c := v]])) = length (map length g)" by simp
next
  fix i assume "i < length (map length (g[r := (g ! r)[c := v]]))"
  then have i: "i < length g" by simp
  then show "map length (g[r := (g ! r)[c := v]]) ! i = map length g ! i"
    by (cases "i = r") simp_all
qed

lemma grid_set_shape: "grid_set g r c v = Inr g' \<Longrightarrow> map length g' = map length g"
  by (auto simp: grid_set_def shape_update split: option.splits)

lemma grid_set_ok:
  assumes "map length g2 = map length g1" "grid_get g1 r c \<noteq> Inl IndexError"
  shows "\<exists>g'. grid_set g2 r c v = Inr g'"
proof -
  from assms(1) have len: "length g2 = length g1" using map_eq_imp_length_eq by blast
  from assms(2) obtain r' where r': "np_index (length g1) r = Some r'"
    by (auto simp: grid_get_def split: option.splits)
  with assms(2) obtain c' where c': "np_index (length (g1 ! r')) c = Some c'"
    by (auto simp: grid_get_def split: option.splits)
  from np_index_less[OF r'] have "r' < length g1" .
  with assms(1) len have "length (g2 ! r') = length (g1 ! r')"
    by (metis nth_map)
  with r' c' len show ?thesis by (simp add: grid_set_def)
qed

lemma place_dishes_result:
  assumes "place_dishes valid gc (List.enumerate k ds) (h, dp) = Inr (h', dp')" "gc < length h"
  shows "length h' = length h \<and> map length (h' ! gc) = map length (h ! gc)
       \<and> (\<forall>a. a \<noteq> gc \<longrightarrow> h' ! a = h ! a)
       \<and> dp' = dp @ map entry (zip (drop k valid) ds)"
  using assms
proof (induction ds arbitrary: k h dp)
  case Nil
  then show ?case by simp
next
  case (Cons d ds)
  show ?case
  proof (cases "k < length valid")
    case True
    obtain r c where rc: "valid ! k = (r, c)" by (cases "valid ! k")
    from Cons.prems(1) True rc obtain g1 where
      g1: "grid_set (h ! gc) r c d = Inr g1"
      and rec: "place_dishes valid gc (List.enumerate (Suc k) ds)
                  (h[gc := g1], dp @ [(r, c, dish_type_name d)]) = Inr (h', dp')"
      by (auto split: sum.splits)
    from Cons.prems(2) have "gc < length (h[gc := g1])" by simp
    from Cons.IH[OF rec this] Cons.prems(2) grid_set_shape[OF g1]
      Cons_nth_drop_Suc[OF True, symmetric] rc
    show ?thesis by (simp add: entry_def)
  next
    case False
    with Cons.prems(1) have rec: "place_dishes valid gc (List.enumerate (Suc k) ds) (h, dp) = Inr (h', dp')"
      by simp
    from Cons.IH[OF rec Cons.prems(2)] False show ?thesis by simp
  qed
qed

lemma place_dishes_ok:
  assumes "\<forall>p \<in> set valid. grid_get g0 (fst p) (snd p) \<noteq> Inl IndexError"
    "gc < length h" "map length (h ! gc) = map length g0"
  shows "\<exists>s. place_dishes valid gc (List.enumerate k ds) (h, dp) = Inr s"
  using assms(2,3)
proof (induction ds arbitrary: k h dp)
  case Nil
  then show ?case by simp
next
  case (Cons d ds)
  show ?case
  proof (cases "k < length valid")
    case True
    obtain r c where rc: "valid ! k = (r, c)" by (cases "valid ! k")
    from True have "valid ! k \<in> set valid" by simp
    with assms(1) rc have "grid_get g0 r c \<noteq> Inl IndexError" by fastforce
    from grid_set_ok[OF Cons.prems(2) this] obtain g1 where
      g1: "grid_set (h ! gc) r c d = Inr g1" by blast
    have 1: "gc < length (h[gc := g1])" using Cons.prems(1) by simp
    have 2: "map length (h[gc := g1] ! gc) = map length g0"
      using Cons.prems grid_set_shape[OF g1] by simp
    from Cons.IH[OF 1 2] True rc g1 show ?thesis by simp
  next
    case False
    with Cons.IH[OF Cons.prems] show ?thesis by simp
  qed
qed

lemma grid_get_cell:
  "grid_get g r c = (case cell_of g (r, c) of None \<Rightarrow> Inl IndexError | Some (i, j) \<Rightarrow> Inr (g ! i ! j))"
  by (simp add: grid_get_def cell_of_def split: option.splits)

lemma grid_set_cell:
  assumes "grid_set g r c v = Inr g'"
  shows "\<exists>i j. cell_of g (r, c) = Some (i, j) \<and> i < length g \<and> j < length (g ! i)
           \<and> g' = g[i := (g ! i)[j := v]]"
proof -
  from assms obtain i where i: "np_index (length g) r = Some i"
    by (auto simp: grid_set_def split: option.splits)
  with assms obtain j where j: "np_index (length (g ! i)) c = Some j"
    by (auto simp: grid_set_def split: option.splits)
  from assms i j have "g' = g[i := (g ! i)[j := v]]" by (simp add: grid_set_def)
  with i j np_index_less[OF i] np_index_less[OF j] show ?thesis
    by (simp add: cell_of_def)
qed

lemma cell_of_shape:
  assumes "map length g1 = map length g2"
  shows "cell_of g1 p = cell_of g2 p"
proof -
  from assms have len: "length g1 = length g2" using map_eq_imp_length_eq by blast
  show ?thesis
  proof (cases "np_index (length g2) (fst p)")
    case None
    with len show ?thesis by (simp add: cell_of_def)
  next
    case (Some i)
    from np_index_less[OF Some] assms len have "length (g1 ! i) = length (g2 ! i)"
      by (metis nth_map)
    with Some len show ?thesis by (simp add: cell_of_def)
  qed
qed

lemma cell_of_nonneg:
  "0 \<le> r \<Longrightarrow> 0 \<le> c \<Longrightarrow>
   cell_of g (r, c) = (if nat r < length g \<and> nat c < length (g ! nat r) then Some (nat r, nat c) else None)"
  by (simp add: cell_of_def np_index_nonneg)

lemma place_dishes_cells:
  assumes "place_dishes valid gc (List.enumerate k ds) (h, dp) = Inr (h', dp')" "gc < length h"
    "map length (h ! gc) = map length G"
  shows "(\<forall>i j. Some (i, j) \<notin> cell_of G ` fst ` set (zip (drop k valid) ds)
            \<longrightarrow> h' ! gc ! i ! j = h ! gc ! i ! j)
       \<and> (distinct (map (cell_of G) (drop k valid)) \<longrightarrow>
            (\<forall>pd \<in> set (zip (drop k valid) ds).
               \<exists>i j. cell_of G (fst pd) = Some (i, j) \<and> h' ! gc ! i ! j = snd pd))"
  using assms
proof (induction ds arbitrary: k h dp)
  case Nil
  then show ?case by simp
next
  case (Cons d ds)
  show ?case
  proof (cases "k < length valid")
    case True
    obtain r c where rc: "valid ! k = (r, c)" by (cases "valid ! k")
    from Cons.prems(1) True rc obtain g1 where
      g1: "grid_set (h ! gc) r c d = Inr g1"
      and rec: "place_dishes valid gc (List.enumerate (Suc k) ds)
                  (h[gc := g1], dp @ [(r, c, dish_type_name d)]) = Inr (h', dp')"
      by (auto split: sum.splits)
    from grid_set_cell[OF g1] obtain i0 j0 where
      c0: "cell_of (h ! gc) (r, c) = Some (i0, j0)"
      and bi: "i0 < length (h ! gc)" and bj: "j0 < length (h ! gc ! i0)"
      and g1eq: "g1 = (h ! gc)[i0 := (h ! gc ! i0)[j0 := d]]" by blast
    from c0 cell_of_shape[OF Cons.prems(3)] have cG: "cell_of G (r, c) = Some (i0, j0)" by simp
    have lg: "gc < length (h[gc := g1])" using Cons.prems(2) by simp
    have hg: "h[gc := g1] ! gc = g1" using Cons.prems(2) by simp
    have sg: "map length (h[gc := g1] ! gc) = map length G"
      unfolding hg using grid_set_shape[OF g1] Cons.prems(3) by simp
    note IH = Cons.IH[OF rec lg sg, unfolded hg]
    have dr: "drop k valid = (r, c) # drop (Suc k) valid"
      using Cons_nth_drop_Suc[OF True] rc by simp
    have other: "g1 ! i ! j = h ! gc ! i ! j" if "(i, j) \<noteq> (i0, j0)" for i j
    proof (cases "i = i0")
      case True
      with that have "j \<noteq> j0" by simp
      with True bi show ?thesis by (simp add: g1eq)
    next
      case False
      then show ?thesis by (simp add: g1eq)
    qed
    have here: "g1 ! i0 ! j0 = d" using bi bj by (simp add: g1eq)
    have A: "\<forall>i j. Some (i, j) \<notin> cell_of G ` fst ` set (zip (drop k valid) (d # ds))
               \<longrightarrow> h' ! gc ! i ! j = h ! gc ! i ! j"
    proof (intro allI impI)
      fix i j assume n: "Some (i, j) \<notin> cell_of G ` fst ` set (zip (drop k valid) (d # ds))"
      then have 1: "(i, j) \<noteq> (i0, j0)"
        and 2: "Some (i, j) \<notin> cell_of G ` fst ` set (zip (drop (Suc k) valid) ds)"
        unfolding dr using cG by auto
      from IH 2 have "h' ! gc ! i ! j = g1 ! i ! j" by blast
      with other[OF 1] show "h' ! gc ! i ! j = h ! gc ! i ! j" by simp
    qed
    have B: "\<forall>pd \<in> set (zip (drop k valid) (d # ds)).
               \<exists>i j. cell_of G (fst pd) = Some (i, j) \<and> h' ! gc ! i ! j = snd pd"
      if dist: "distinct (map (cell_of G) (drop k valid))"
    proof
      fix pd assume pd: "pd \<in> set (zip (drop k valid) (d # ds))"
      from dist have d1: "cell_of G (r, c) \<notin> cell_of G ` set (drop (Suc k) valid)"
        and d2: "distinct (map (cell_of G) (drop (Suc k) valid))"
        unfolding dr by simp_all
      from pd have "pd = ((r, c), d) \<or> pd \<in> set (zip (drop (Suc k) valid) ds)"
        unfolding dr by simp
      then show "\<exists>i j. cell_of G (fst pd) = Some (i, j) \<and> h' ! gc ! i ! j = snd pd"
      proof
        assume e: "pd = ((r, c), d)"
        have "fst ` set (zip (drop (Suc k) valid) ds) \<subseteq> set (drop (Suc k) valid)"
          by (auto dest: set_zip_leftD)
        with d1 cG have "Some (i0, j0) \<notin> cell_of G ` fst ` set (zip (drop (Suc k) valid) ds)"
          by auto
        with IH have "h' ! gc ! i0 ! j0 = g1 ! i0 ! j0" by blast
        with here e cG show ?thesis by simp
      next
        assume "pd \<in> set (zip (drop (Suc k) valid) ds)"
        with IH d2 show ?thesis by blast
      qed
    qed
    from A B show ?thesis by blast
  next
    case False
    with Cons.prems(1) have rec: "place_dishes valid gc (List.enumerate (Suc k) ds) (h, dp) = Inr (h', dp')"
      by simp
    from Cons.IH[OF rec Cons.prems(2,3)] False show ?thesis by simp
  qed
qed

section \<open>What a successful call is made of\<close>

lemma generate_Inr:
  assumes "generate_dishes_and_preferences h grid rooms people occ g = Inr (h', gc, prefs, dishes)"
  shows "\<exists>kr kc valid valid' ds'.
           rooms ''K'' = Some (kr, kc)
         \<and> prefs = fst (assign_preferences (length people) g)
         \<and> valid_kitchen_positions (h ! grid) kr kc occ = Inr valid
         \<and> mset valid' = mset valid
         \<and> mset ds' = mset (replicate (count_pref ''vegan'' prefs) (CHR ''V'')
                          @ replicate (count_pref ''non-vegetarian'' prefs) (CHR ''N''))
         \<and> gc = length h
         \<and> place_dishes valid' (length h) (List.enumerate 0 ds') (h @ [h ! grid], []) = Inr (h', dishes)"
proof -
  from assms obtain kr kc where k: "rooms ''K'' = Some (kr, kc)"
    by (auto simp: generate_dishes_and_preferences_def split: option.splits)
  obtain ps g1 where a: "assign_preferences (length people) g = (ps, g1)"
    by (cases "assign_preferences (length people) g")
  from assms k a obtain valid where v: "valid_kitchen_positions (h ! grid) kr kc occ = Inr valid"
    by (auto simp: generate_dishes_and_preferences_def Let_def split: sum.splits)
  obtain valid' g2 where s1: "shuffle valid g1 = (valid', g2)" by (cases "shuffle valid g1")
  define ds where "ds = replicate (count_pref ''vegan'' ps) (CHR ''V'')
                          @ replicate (count_pref ''non-vegetarian'' ps) (CHR ''N'')"
  obtain ds' g3 where s2: "shuffle ds g2 = (ds', g3)" by (cases "shuffle ds g2")
  from assms k a v s1 s2 have
    r: "prefs = ps" "gc = length h"
       "place_dishes valid' (length h) (List.enumerate 0 ds') (h @ [h ! grid], []) = Inr (h', dishes)"
    by (auto simp: generate_dishes_and_preferences_def Let_def ds_def split: sum.splits)
  from mset_shuffle[of valid g1] s1 have m1: "mset valid' = mset valid" by simp
  from mset_shuffle[of ds g2] s2 have m2: "mset ds' = mset ds" by simp
  from k a v r m1 m2 show ?thesis unfolding ds_def by auto
qed

lemma generate_succeeds:
  assumes "rooms ''K'' = Some (kr, kc)" "valid_kitchen_positions (h ! grid) kr kc occ = Inr valid"
  shows "\<exists>r. generate_dishes_and_preferences h grid rooms people occ g = Inr r"
proof -
  obtain ps g1 where a: "assign_preferences (length people) g = (ps, g1)"
    by (cases "assign_preferences (length people) g")
  obtain valid' g2 where s1: "shuffle valid g1 = (valid', g2)" by (cases "shuffle valid g1")
  define ds where "ds = replicate (count_pref ''vegan'' ps) (CHR ''V'')
                          @ replicate (count_pref ''non-vegetarian'' ps) (CHR ''N'')"
  obtain ds' g3 where s2: "shuffle ds g2 = (ds', g3)" by (cases "shuffle ds g2")
  from mset_shuffle[of valid g1] s1 have "set valid' = set valid" by (auto dest: mset_eq_setD)
  moreover have "\<forall>p \<in> set valid. grid_get (h ! grid) (fst p) (snd p) \<noteq> Inl IndexError"
    using valid_kitchen_positions_filter[OF assms(2)] by (auto simp: eligible_def)
  ultimately have ok: "\<forall>p \<in> set valid'. grid_get (h ! grid) (fst p) (snd p) \<noteq> Inl IndexError"
    by simp
  have "\<exists>s. place_dishes valid' (length h) (List.enumerate 0 ds') (h @ [h ! grid], []) = Inr s"
    by (rule place_dishes_ok[OF ok]) simp_all
  then obtain h2 dp where "place_dishes valid' (length h) (List.enumerate 0 ds') (h @ [h ! grid], []) = Inr (h2, dp)"
    by auto
  with assms a s1 s2 show ?thesis
    by (simp add: generate_dishes_and_preferences_def Let_def ds_def)
qed

lemma generate_dishes:
  assumes "generate_dishes_and_preferences h grid rooms people occ g = Inr (h', gc, prefs, dishes)"
  shows "\<exists>kr kc valid valid' ds'.
           rooms ''K'' = Some (kr, kc)
         \<and> valid_kitchen_positions (h ! grid) kr kc occ = Inr valid
         \<and> mset valid' = mset valid
         \<and> mset ds' = mset (replicate (count_pref ''vegan'' prefs) (CHR ''V'')
                          @ replicate (count_pref ''non-vegetarian'' prefs) (CHR ''N''))
         \<and> dishes = map entry (zip valid' ds')"
proof -
  from generate_Inr[OF assms] obtain kr kc valid valid' ds' where
    1: "rooms ''K'' = Some (kr, kc)" "valid_kitchen_positions (h ! grid) kr kc occ = Inr valid"
       "mset valid' = mset valid"
       "mset ds' = mset (replicate (count_pref ''vegan'' prefs) (CHR ''V'')
                          @ replicate (count_pref ''non-vegetarian'' prefs) (CHR ''N''))"
    and p: "place_dishes valid' (length h) (List.enumerate 0 ds') (h @ [h ! grid], []) = Inr (h', dishes)"
    by blast
  from place_dishes_result[OF p] have "dishes = map entry (zip valid' ds')" by simp
  with 1 show ?thesis by blast
qed

lemma prefs_keys_labels:
  "keys_labels n (fst (assign_preferences n g))"
  unfolding assign_preferences_def by (rule keys_labels_fold)

lemma count_pref_total:
  assumes "snd ` set ps \<subseteq> {''vegan'', ''non-vegetarian''}"
  shows "count_pref ''vegan'' ps + count_pref ''non-vegetarian'' ps = length ps"
proof -
  have "filter (\<lambda>p. p = ''non-vegetarian'') (map snd ps) = filter (\<lambda>p. \<not> p = ''vegan'') (map snd ps)"
    using assms by (intro filter_cong) auto
  then show ?thesis
    unfolding count_pref_def using sum_length_filter_compl[of "\<lambda>p. p = ''vegan''" "map snd ps"]
    by simp
qed

lemma prefs_length: "length (fst (assign_preferences n g)) = n"
proof -
  from prefs_keys_labels[of n g] have "map fst (fst (assign_preferences n g)) = map int [1..<Suc n]"
    by (simp add: keys_labels_def)
  then have "length (map fst (fst (assign_preferences n g))) = length (map int [1..<Suc n])" by simp
  then show ?thesis by simp
qed

section \<open>Concrete runs\<close>

text \<open>Two people in the example house, and five people for its three free kitchen cells.\<close>

lemma example_run:
  "generate_dishes_and_preferences [example_grid] 0 example_rooms example_people
     (set example_people) example_rng
   = Inr ([example_grid, example_served],
          1, [(1, ''vegan''), (2, ''non-vegetarian'')],
          [(2, 1, ''vegan''), (1, 1, ''non-vegetarian'')])"
  by code_simp

lemma example_crowd_run:
  "generate_dishes_and_preferences [example_grid] 0 example_rooms example_crowd
     (set example_crowd) example_rng
   = Inr ([example_grid, example_crowd_served],
          1, [(1, ''vegan''), (2, ''non-vegetarian''), (3, ''vegan''),
              (4, ''non-vegetarian''), (5, ''vegan'')],
          [(1, 2, ''vegan''), (1, 1, ''non-vegetarian''), (2, 1, ''non-vegetarian'')])"
  by code_simp

lemma example_kitchen:
  "example_rooms ''K'' = Some (\<lparr>start = Some 1, stop = Some 3\<rparr>, \<lparr>start = Some 1, stop = Some 3\<rparr>)"
  by (simp add: example_rooms_def)

lemma example_scan:
  "valid_kitchen_positions ([example_grid] ! 0) \<lparr>start = Some 1, stop = Some 3\<rparr>
     \<lparr>start = Some 1, stop = Some 3\<rparr> (set example_crowd) = Inr [(1, 1), (1, 2), (2, 1)]"
  by code_simp

lemma example_scan_people:
  "valid_kitchen_positions ([example_grid] ! 0) \<lparr>start = Some 1, stop = Some 3\<rparr>
     \<lparr>start = Some 1, stop = Some 3\<rparr> (set example_people) = Inr [(1, 1), (1, 2), (2, 1)]"
  by code_simp

section \<open>Properties of the query functions\<close>

text \<open>
  Claim C9. \<open>get_person_dietary_preference\<close> returns the stored preference when the person
  number is a key of the dictionary (whose keys are distinct, as those of a dictionary are),
  and the string \<open>unknown\<close> when it is not. The function is total: no input makes it raise.
\<close>

theorem get_person_dietary_preference_lookup:
  "(distinct (map fst person_preferences) \<longrightarrow> (person_number, p) \<in> set person_preferences
      \<longrightarrow> get_person_dietary_preference person_number person_preferences = p)
   \<and> (person_number \<notin> fst ` set person_preferences
      \<longrightarrow> get_person_dietary_preference person_number person_preferences = ''unknown'')"
proof (intro conjI impI)
  assume "distinct (map fst person_preferences)" "(person_number, p) \<in> set person_preferences"
  then have "map_of person_preferences person_number = Some p" by simp
  then show "get_person_dietary_preference person_number person_preferences = p"
    by (simp add: get_person_dietary_preference_def)
next
  assume "person_number \<notin> fst ` set person_preferences"
  then have "map_of person_preferences person_number = None" by (simp add: map_of_eq_None_iff)
  then show "get_person_dietary_preference person_number person_preferences = ''unknown''"
    by (simp add: get_person_dietary_preference_def)
qed

theorem get_person_dietary_preference_lookup_witness:
  "distinct (map fst [(1 :: int, ''vegan''), (2, ''non-vegetarian'')])
   \<and> (2, ''non-vegetarian'') \<in> set [(1 :: int, ''vegan''), (2, ''non-vegetarian'')]
   \<and> get_person_dietary_preference 2 [(1, ''vegan''), (2, ''non-vegetarian'')] = ''non-vegetarian''
   \<and> 3 \<notin> fst ` set [(1 :: int, ''vegan''), (2, ''non-vegetarian'')]
   \<and> get_person_dietary_preference 3 [(1, ''vegan''), (2, ''non-vegetarian'')] = ''unknown''"
proof -
  have d: "distinct (map fst [(1 :: int, ''vegan''), (2, ''non-vegetarian'')])" by simp
  have m: "(2, ''non-vegetarian'') \<in> set [(1 :: int, ''vegan''), (2, ''non-vegetarian'')]" by simp
  have a: "3 \<notin> fst ` set [(1 :: int, ''vegan''), (2, ''non-vegetarian'')]" by simp
  from get_person_dietary_preference_lookup
         [of "[(1, ''vegan''), (2, ''non-vegetarian'')]" 2 "''non-vegetarian''"] d m
  have 1: "get_person_dietary_preference 2 [(1, ''vegan''), (2, ''non-vegetarian'')] = ''non-vegetarian''"
    by blast
  from get_person_dietary_preference_lookup
         [of "[(1, ''vegan''), (2, ''non-vegetarian'')]" 3 "''vegan''"] a
  have 2: "get_person_dietary_preference 3 [(1, ''vegan''), (2, ''non-vegetarian'')] = ''unknown''"
    by blast
  from d m a 1 2 show ?thesis by blast
qed

text \<open>
  Claim C10. When every value of the preference dictionary and every type field of the dish
  list is one of the two labels, the summary splits both: the two people counts add up to
  \<open>total_people\<close>, which is the number of entries of the dictionary, and the two dish counts
  add up to the length of the dish list.
\<close>

theorem summary_partitions:
  assumes "snd ` set person_preferences \<subseteq> {''vegan'', ''non-vegetarian''}"
    and "snd ` snd ` set dish_positions \<subseteq> {''vegan'', ''non-vegetarian''}"
  shows "vegan_people_count (get_dish_assignment_summary person_preferences dish_positions)
           + non_vegetarian_people_count (get_dish_assignment_summary person_preferences dish_positions)
         = total_people (get_dish_assignment_summary person_preferences dish_positions)
       \<and> total_people (get_dish_assignment_summary person_preferences dish_positions)
         = length person_preferences
       \<and> vegan_dishes_count (get_dish_assignment_summary person_preferences dish_positions)
           + non_vegetarian_dishes_count (get_dish_assignment_summary person_preferences dish_positions)
         = length dish_positions"
proof -
  have "filter (\<lambda>(p, pref). pref = ''non-vegetarian'') person_preferences
      = filter (\<lambda>x. \<not> (case x of (p, pref) \<Rightarrow> pref = ''vegan'')) person_preferences"
    using assms(1) by (intro filter_cong) auto
  then have 1: "length (filter (\<lambda>(p, pref). pref = ''vegan'') person_preferences)
         + length (filter (\<lambda>(p, pref). pref = ''non-vegetarian'') person_preferences)
         = length person_preferences"
    using sum_length_filter_compl[of "\<lambda>(p, pref). pref = ''vegan''" person_preferences] by simp
  have "filter (\<lambda>(row, col, dtype). dtype = ''non-vegetarian'') dish_positions
      = filter (\<lambda>x. \<not> (case x of (row, col, dtype) \<Rightarrow> dtype = ''vegan'')) dish_positions"
    using assms(2) by (intro filter_cong) force+
  then have 2: "length (filter (\<lambda>(row, col, dtype). dtype = ''vegan'') dish_positions)
         + length (filter (\<lambda>(row, col, dtype). dtype = ''non-vegetarian'') dish_positions)
         = length dish_positions"
    using sum_length_filter_compl[of "\<lambda>(row, col, dtype). dtype = ''vegan''" dish_positions] by simp
  from 1 2 show ?thesis
    by (simp add: get_dish_assignment_summary_def find_dishes_by_type_def Let_def)
qed

theorem summary_partitions_witness:
  "snd ` set [(1 :: int, ''vegan''), (2, ''non-vegetarian''), (3, ''vegan'')]
     \<subseteq> {''vegan'', ''non-vegetarian''}
   \<and> snd ` snd ` set [(1 :: int, 2 :: int, ''vegan''), (1, 1, ''non-vegetarian'')]
     \<subseteq> {''vegan'', ''non-vegetarian''}
   \<and> vegan_people_count (get_dish_assignment_summary
        [(1, ''vegan''), (2, ''non-vegetarian''), (3, ''vegan'')]
        [(1, 2, ''vegan''), (1, 1, ''non-vegetarian'')])
      + non_vegetarian_people_count (get_dish_assignment_summary
        [(1, ''vegan''), (2, ''non-vegetarian''), (3, ''vegan'')]
        [(1, 2, ''vegan''), (1, 1, ''non-vegetarian'')]) = 3
   \<and> vegan_dishes_count (get_dish_assignment_summary
        [(1, ''vegan''), (2, ''non-vegetarian''), (3, ''vegan'')]
        [(1, 2, ''vegan''), (1, 1, ''non-vegetarian'')])
      + non_vegetarian_dishes_count (get_dish_assignment_summary
        [(1, ''vegan''), (2, ''non-vegetarian''), (3, ''vegan'')]
        [(1, 2, ''vegan''), (1, 1, ''non-vegetarian'')]) = 2"
proof -
  have a: "snd ` set [(1 :: int, ''vegan''), (2, ''non-vegetarian''), (3, ''vegan'')]
     \<subseteq> {''vegan'', ''non-vegetarian''}" by simp
  have b: "snd ` snd ` set [(1 :: int, 2 :: int, ''vegan''), (1, 1, ''non-vegetarian'')]
     \<subseteq> {''vegan'', ''non-vegetarian''}" by simp
  from summary_partitions[OF a b] a b show ?thesis by simp
qed

section \<open>The preference dictionary\<close>

lemma dishes_to_place_length:
  "length (replicate (count_pref ''vegan'' (fst (assign_preferences n g))) (CHR ''V'')
         @ replicate (count_pref ''non-vegetarian'' (fst (assign_preferences n g))) (CHR ''N'')) = n"
  using count_pref_total[of "fst (assign_preferences n g)"] prefs_keys_labels[of n g]
  by (simp add: keys_labels_def prefs_length)

lemma assign_preferences_one: "fst (assign_preferences 1 g) = [(1, ''vegan'')]"
  by (simp add: assign_preferences_def assign_step_def count_pref_def)

lemma assign_preferences_one_draws: "snd (assign_preferences 1 g) = g"
  by (simp add: assign_preferences_def assign_step_def count_pref_def)

lemma example_single_run:
  "generate_dishes_and_preferences [example_grid] 0 example_rooms [(3, 1)] {(3, 1)} example_rng
   = Inr ([example_grid, example_single_served],
          1, [(1, ''vegan'')], [(2, 1, ''vegan'')])"
  by code_simp

text \<open>
  Claim C1. With two or more people, the preference dictionary a call returns holds both
  \<open>vegan\<close> and \<open>non-vegetarian\<close>, whatever the random generator draws.
\<close>

theorem preference_map_has_both_labels:
  assumes "generate_dishes_and_preferences h grid rooms people occ g = Inr (h', gc, prefs, dishes)"
    and "2 \<le> length people"
  shows "''vegan'' \<in> snd ` set prefs \<and> ''non-vegetarian'' \<in> snd ` set prefs"
proof -
  from generate_Inr[OF assms(1)] have "prefs = fst (assign_preferences (length people) g)" by blast
  moreover have "length people div 2 < length people" using assms(2) by simp
  ultimately show ?thesis
    using both_labels_fold[OF assms(2), of "length people" g]
    by (simp add: assign_preferences_def)
qed

theorem preference_map_has_both_labels_witness:
  "generate_dishes_and_preferences [example_grid] 0 example_rooms example_people
     (set example_people) example_rng
   = Inr ([example_grid, example_served],
          1, [(1, ''vegan''), (2, ''non-vegetarian'')],
          [(2, 1, ''vegan''), (1, 1, ''non-vegetarian'')])
   \<and> 2 \<le> length example_people
   \<and> ''vegan'' \<in> snd ` set [(1 :: int, ''vegan''), (2, ''non-vegetarian'')]
   \<and> ''non-vegetarian'' \<in> snd ` set [(1 :: int, ''vegan''), (2, ''non-vegetarian'')]"
proof -
  have n: "2 \<le> length example_people" by (simp add: example_people_def)
  from preference_map_has_both_labels[OF example_run n] example_run n show ?thesis by blast
qed

text \<open>
  Claim C7. For any number \<open>N\<close> of people, the keys of the returned preference dictionary
  are exactly \<open>1, \<dots>, N\<close> (none when \<open>N = 0\<close>), each occurring once, and each is
  mapped to \<open>vegan\<close> or to \<open>non-vegetarian\<close>.
\<close>

theorem preference_map_keys:
  assumes "generate_dishes_and_preferences h grid rooms people occ g = Inr (h', gc, prefs, dishes)"
  shows "fst ` set prefs = {1..int (length people)}
       \<and> distinct (map fst prefs)
       \<and> (\<forall>k \<in> {1..int (length people)}.
            map_of prefs k = Some ''vegan'' \<or> map_of prefs k = Some ''non-vegetarian'')"
proof -
  from generate_Inr[OF assms] have p: "prefs = fst (assign_preferences (length people) g)" by blast
  from prefs_keys_labels[of "length people" g] have
    k: "map fst prefs = map int [1..<Suc (length people)]"
    and l: "snd ` set prefs \<subseteq> {''vegan'', ''non-vegetarian''}"
    unfolding p keys_labels_def by simp_all
  have "fst ` set prefs = set (map fst prefs)" by simp
  also have "\<dots> = int ` {1..<Suc (length people)}" unfolding k by (simp only: set_map set_upt)
  also have "\<dots> = {1..int (length people)}"
  proof (rule set_eqI)
    fix x show "x \<in> int ` {1..<Suc (length people)} \<longleftrightarrow> x \<in> {1..int (length people)}"
    proof
      assume "x \<in> int ` {1..<Suc (length people)}" then show "x \<in> {1..int (length people)}" by auto
    next
      assume "x \<in> {1..int (length people)}"
      then have "x = int (nat x)" "nat x \<in> {1..<Suc (length people)}" by auto
      then show "x \<in> int ` {1..<Suc (length people)}" by blast
    qed
  qed
  finally have ks: "fst ` set prefs = {1..int (length people)}" .
  have di: "distinct (map fst prefs)" unfolding k by (simp add: distinct_map inj_on_def)
  have "map_of prefs k = Some ''vegan'' \<or> map_of prefs k = Some ''non-vegetarian''"
    if "k \<in> {1..int (length people)}" for k
  proof -
    from that ks have "k \<in> fst ` set prefs" by simp
    then obtain v where v: "(k, v) \<in> set prefs" by auto
    with di have "map_of prefs k = Some v" by simp
    moreover from v l have "v = ''vegan'' \<or> v = ''non-vegetarian''" by force
    ultimately show ?thesis by auto
  qed
  with ks di show ?thesis by blast
qed

theorem preference_map_keys_witness:
  "generate_dishes_and_preferences [example_grid] 0 example_rooms example_people
     (set example_people) example_rng
   = Inr ([example_grid, example_served],
          1, [(1, ''vegan''), (2, ''non-vegetarian'')],
          [(2, 1, ''vegan''), (1, 1, ''non-vegetarian'')])
   \<and> fst ` set [(1 :: int, ''vegan''), (2, ''non-vegetarian'')] = {1..int (length example_people)}
   \<and> distinct (map fst [(1 :: int, ''vegan''), (2, ''non-vegetarian'')])
   \<and> 2 \<in> {1..int (length example_people)}
   \<and> (map_of [(1 :: int, ''vegan''), (2, ''non-vegetarian'')] 2 = Some ''vegan''
      \<or> map_of [(1 :: int, ''vegan''), (2, ''non-vegetarian'')] 2 = Some ''non-vegetarian'')"
proof -
  have m: "2 \<in> {1..int (length example_people)}" by (simp add: example_people_def)
  from preference_map_keys[OF example_run] example_run m show ?thesis by blast
qed

text \<open>
  Claim C8, as amended. With a single person the loop takes the balancing branch at once
  (\<open>0 < 1 // 2\<close> is false), finds no \<open>vegan\<close> entry and assigns \<open>vegan\<close>: person 1 is
  \<open>vegan\<close> for every outcome of the random generator, and no random choice is made:
  the allocation loop leaves the generator as it found it.
\<close>

theorem single_occupant_is_vegan:
  assumes "generate_dishes_and_preferences h grid rooms people occ g = Inr (h', gc, prefs, dishes)"
    and "length people = 1"
  shows "prefs = [(1, ''vegan'')] \<and> assign_preferences (length people) g = (prefs, g)"
proof -
  from generate_Inr[OF assms(1)] assms(2) have "prefs = fst (assign_preferences 1 g)" by auto
  with assign_preferences_one[of g] assign_preferences_one_draws[of g] assms(2)
  show ?thesis by (simp add: prod_eq_iff)
qed

theorem single_occupant_is_vegan_witness:
  "generate_dishes_and_preferences [example_grid] 0 example_rooms [(3, 1)] {(3, 1)} example_rng
   = Inr ([example_grid, example_single_served],
          1, [(1, ''vegan'')], [(2, 1, ''vegan'')])
   \<and> length [(3 :: int, 1 :: int)] = 1
   \<and> [(1 :: int, ''vegan'')] = [(1, ''vegan'')]
   \<and> assign_preferences (length [(3 :: int, 1 :: int)]) example_rng = ([(1, ''vegan'')], example_rng)"
proof -
  have n: "length [(3 :: int, 1 :: int)] = 1" by simp
  from single_occupant_is_vegan[OF example_single_run n] example_single_run n
  show ?thesis by blast
qed

text \<open>
  The claim as stated, that with one person both labels are possible outcomes, fails: no
  call with one person, on any store, grid, rooms, occupied set and random generator, returns
  a dictionary in which person 1 is \<open>non-vegetarian\<close>.
\<close>

theorem single_occupant_never_non_vegetarian:
  "\<not> (\<exists>h grid rooms person occ g h' gc prefs dishes.
        generate_dishes_and_preferences h grid rooms [person] occ g = Inr (h', gc, prefs, dishes)
      \<and> map_of prefs 1 = Some ''non-vegetarian'')"
proof
  assume "\<exists>h grid rooms person occ g h' gc prefs dishes.
        generate_dishes_and_preferences h grid rooms [person] occ g = Inr (h', gc, prefs, dishes)
      \<and> map_of prefs 1 = Some ''non-vegetarian''"
  then obtain h grid rooms person occ g h' gc prefs dishes where
    r: "generate_dishes_and_preferences h grid rooms [person] occ g = Inr (h', gc, prefs, dishes)"
    and n: "map_of prefs 1 = Some ''non-vegetarian''" by blast
  from generate_Inr[OF r] have "prefs = fst (assign_preferences 1 g)" by auto
  with assign_preferences_one[of g] n show False by simp
qed

section \<open>The dish list\<close>

lemma valid_member:
  assumes "valid_kitchen_positions grid kr kc occ = Inr valid" "q \<in> set valid"
  shows "eligible grid occ q \<and> fst q \<in> set (indices_of kr) \<and> snd q \<in> set (indices_of kc)"
proof -
  obtain a b where q: "q = (a, b)" by (cases q)
  from assms(2) have "(a, b) \<in> set (filter (eligible grid occ) (List.product (indices_of kr) (indices_of kc)))"
    unfolding q valid_kitchen_positions_filter[OF assms(1)] .
  then show ?thesis by (simp add: q)
qed

lemma find_dishes_count:
  "length (find_dishes_by_type (map entry pds) t) = length (filter (\<lambda>d. dish_type_name d = t) (map snd pds))"
  by (induction pds) (auto simp: find_dishes_by_type_def entry_def)

lemma count_replicate_V:
  "length (filter (\<lambda>d. dish_type_name d = ''vegan'') (replicate a (CHR ''V'') @ replicate b (CHR ''N''))) = a"
  by (simp add: dish_type_name_def)

lemma count_replicate_N:
  "length (filter (\<lambda>d. dish_type_name d = ''non-vegetarian'') (replicate a (CHR ''V'') @ replicate b (CHR ''N''))) = b"
  by (simp add: dish_type_name_def)

lemma filter_take_le: "length (filter P (take n xs)) \<le> length (filter P xs)"
proof -
  have "length (filter P xs) = length (filter P (take n xs)) + length (filter P (drop n xs))"
    by (metis append_take_drop_id filter_append length_append)
  then show ?thesis by simp
qed

lemma count_mset_eq: "mset xs = mset ys \<Longrightarrow> length (filter P xs) = length (filter P ys)"
  by (metis mset_filter size_mset)

text \<open>
  Claim C2. Every coordinate of the returned dish list lies in the half-open row range and
  column range of the kitchen slices, is not in \<open>occupied_positions\<close>, and holds \<open>K\<close> in
  the grid as it was passed in.
\<close>

theorem dish_positions_eligible:
  assumes "generate_dishes_and_preferences h grid rooms people occ g = Inr (h', gc, prefs, dishes)"
    and "rooms ''K'' = Some (kitchen_rows, kitchen_cols)"
    and "(row, col, dish_type) \<in> set dishes"
  shows "(\<exists>r0 r1. start kitchen_rows = Some r0 \<and> stop kitchen_rows = Some r1 \<and> r0 \<le> row \<and> row < r1)
       \<and> (\<exists>c0 c1. start kitchen_cols = Some c0 \<and> stop kitchen_cols = Some c1 \<and> c0 \<le> col \<and> col < c1)
       \<and> (row, col) \<notin> occ
       \<and> grid_get (h ! grid) row col = Inr (CHR ''K'')"
proof -
  from generate_dishes[OF assms(1)] assms(2) obtain valid valid' ds' where
    v: "valid_kitchen_positions (h ! grid) kitchen_rows kitchen_cols occ = Inr valid"
    and m: "mset valid' = mset valid" and d: "dishes = map entry (zip valid' ds')"
    by auto
  from assms(3) d obtain p x where pd: "(p, x) \<in> set (zip valid' ds')" "entry (p, x) = (row, col, dish_type)"
    by auto
  from pd(2) have "p = (row, col)" by (cases p) (simp add: entry_def)
  with set_zip_leftD[OF pd(1)] have "(row, col) \<in> set valid'" by simp
  with m have "(row, col) \<in> set valid" by (auto dest: mset_eq_setD)
  then have "eligible (h ! grid) occ (row, col)"
    and "row \<in> set (indices_of kitchen_rows)" and "col \<in> set (indices_of kitchen_cols)"
    unfolding valid_kitchen_positions_filter[OF v] by auto
  then show ?thesis by (simp add: eligible_def in_indices_of)
qed

theorem dish_positions_eligible_witness:
  "generate_dishes_and_preferences [example_grid] 0 example_rooms example_crowd
     (set example_crowd) example_rng
   = Inr ([example_grid, example_crowd_served],
          1, [(1, ''vegan''), (2, ''non-vegetarian''), (3, ''vegan''),
              (4, ''non-vegetarian''), (5, ''vegan'')],
          [(1, 2, ''vegan''), (1, 1, ''non-vegetarian''), (2, 1, ''non-vegetarian'')])
   \<and> example_rooms ''K'' = Some (\<lparr>start = Some 1, stop = Some 3\<rparr>, \<lparr>start = Some 1, stop = Some 3\<rparr>)
   \<and> (1, 2, ''vegan'') \<in> set [(1 :: int, 2 :: int, ''vegan''), (1, 1, ''non-vegetarian''), (2, 1, ''non-vegetarian'')]
   \<and> (\<exists>r0 r1. start \<lparr>start = Some 1, stop = Some 3\<rparr> = Some r0
         \<and> stop \<lparr>start = Some 1, stop = Some 3\<rparr> = Some r1 \<and> r0 \<le> 1 \<and> 1 < r1)
   \<and> (\<exists>c0 c1. start \<lparr>start = Some 1, stop = Some 3\<rparr> = Some c0
         \<and> stop \<lparr>start = Some 1, stop = Some 3\<rparr> = Some c1 \<and> c0 \<le> 2 \<and> 2 < c1)
   \<and> (1, 2) \<notin> set example_crowd
   \<and> grid_get ([example_grid] ! 0) 1 2 = Inr (CHR ''K'')"
proof -
  have m: "(1, 2, ''vegan'') \<in> set [(1 :: int, 2 :: int, ''vegan''), (1, 1, ''non-vegetarian''), (2, 1, ''non-vegetarian'')]"
    by simp
  from dish_positions_eligible[OF example_crowd_run example_kitchen m] example_crowd_run example_kitchen m
  show ?thesis by blast
qed

text \<open>
  Claim C3. When the scan finds \<open>M\<close> eligible cells, the call returns normally, and the
  dish list has \<open>min(M, N)\<close> entries for \<open>N\<close> people; with \<open>M < N\<close> the list is
  shorter and nothing is raised.
\<close>

theorem dish_positions_length:
  assumes "rooms ''K'' = Some (kitchen_rows, kitchen_cols)"
    and "valid_kitchen_positions (h ! grid) kitchen_rows kitchen_cols occ = Inr valid"
  shows "\<exists>h' gc prefs dishes.
           generate_dishes_and_preferences h grid rooms people occ g = Inr (h', gc, prefs, dishes)
         \<and> length dishes = min (length valid) (length people)"
proof -
  from generate_succeeds[where rooms = rooms and people = people and g = g, OF assms] obtain h' gc prefs dishes where
    r: "generate_dishes_and_preferences h grid rooms people occ g = Inr (h', gc, prefs, dishes)"
    by (metis prod_cases4)
  from generate_Inr[OF r] have p: "prefs = fst (assign_preferences (length people) g)" by blast
  from generate_dishes[OF r] assms obtain valid' ds' where
    m: "mset valid' = mset valid"
    and m2: "mset ds' = mset (replicate (count_pref ''vegan'' prefs) (CHR ''V'')
                          @ replicate (count_pref ''non-vegetarian'' prefs) (CHR ''N''))"
    and d: "dishes = map entry (zip valid' ds')"
    by auto
  from m have l1: "length valid' = length valid" by (rule mset_eq_length)
  from mset_eq_length[OF m2] have l2: "length ds' = length people"
    unfolding p using dishes_to_place_length[of "length people" g] by simp
  from d l1 l2 have "length dishes = min (length valid) (length people)" by simp
  with r show ?thesis by blast
qed

theorem dish_positions_length_witness:
  "example_rooms ''K'' = Some (\<lparr>start = Some 1, stop = Some 3\<rparr>, \<lparr>start = Some 1, stop = Some 3\<rparr>)
   \<and> valid_kitchen_positions ([example_grid] ! 0) \<lparr>start = Some 1, stop = Some 3\<rparr>
        \<lparr>start = Some 1, stop = Some 3\<rparr> (set example_crowd) = Inr [(1, 1), (1, 2), (2, 1)]
   \<and> (\<exists>h' gc prefs dishes.
         generate_dishes_and_preferences [example_grid] 0 example_rooms example_crowd
           (set example_crowd) example_rng = Inr (h', gc, prefs, dishes)
       \<and> length dishes = min (length [(1 :: int, 1 :: int), (1, 2), (2, 1)]) (length example_crowd))"
  using dish_positions_length[where rooms = example_rooms and people = example_crowd
          and g = example_rng, OF example_kitchen example_scan]
    example_kitchen example_scan
  by blast

text \<open>
  Claim C5. The coordinates of the returned dish list are pairwise distinct, whatever the
  two shuffles do.
\<close>

theorem dish_positions_distinct:
  assumes "generate_dishes_and_preferences h grid rooms people occ g = Inr (h', gc, prefs, dishes)"
  shows "distinct (map (\<lambda>(row, col, dish_type). (row, col)) dishes)"
proof -
  from generate_dishes[OF assms] obtain kr kc valid valid' ds' where
    v: "valid_kitchen_positions (h ! grid) kr kc occ = Inr valid"
    and m: "mset valid' = mset valid" and d: "dishes = map entry (zip valid' ds')"
    by blast
  from distinct_valid_kitchen_positions[OF v] m have dv: "distinct valid'"
    using mset_eq_imp_distinct_iff by blast
  have "map (\<lambda>(row, col, dish_type). (row, col)) dishes = map fst (zip valid' ds')"
    unfolding d by (simp add: entry_def)
  also have "\<dots> = take (length ds') valid'" by (simp add: map_fst_zip_take min_def)
  finally show ?thesis using dv by simp
qed

theorem dish_positions_distinct_witness:
  "generate_dishes_and_preferences [example_grid] 0 example_rooms example_crowd
     (set example_crowd) example_rng
   = Inr ([example_grid, example_crowd_served],
          1, [(1, ''vegan''), (2, ''non-vegetarian''), (3, ''vegan''),
              (4, ''non-vegetarian''), (5, ''vegan'')],
          [(1, 2, ''vegan''), (1, 1, ''non-vegetarian''), (2, 1, ''non-vegetarian'')])
   \<and> distinct (map (\<lambda>(row, col, dish_type). (row, col))
         [(1 :: int, 2 :: int, ''vegan''), (1, 1, ''non-vegetarian''), (2, 1, ''non-vegetarian'')])"
  using dish_positions_distinct[OF example_crowd_run] example_crowd_run by blast

text \<open>
  Claim C6. The dish list has at most as many \<open>vegan\<close> entries as the preference
  dictionary has \<open>vegan\<close> values, and exactly as many when the scan found at least as many
  cells as there are people; likewise for \<open>non-vegetarian\<close>.
\<close>

theorem dish_counts_bounded:
  assumes "generate_dishes_and_preferences h grid rooms people occ g = Inr (h', gc, prefs, dishes)"
    and "rooms ''K'' = Some (kitchen_rows, kitchen_cols)"
    and "valid_kitchen_positions (h ! grid) kitchen_rows kitchen_cols occ = Inr valid"
  shows "length (find_dishes_by_type dishes ''vegan'') \<le> count_pref ''vegan'' prefs
       \<and> length (find_dishes_by_type dishes ''non-vegetarian'') \<le> count_pref ''non-vegetarian'' prefs
       \<and> (length people \<le> length valid \<longrightarrow>
            length (find_dishes_by_type dishes ''vegan'') = count_pref ''vegan'' prefs
          \<and> length (find_dishes_by_type dishes ''non-vegetarian'') = count_pref ''non-vegetarian'' prefs)"
proof -
  define ds where "ds = replicate (count_pref ''vegan'' prefs) (CHR ''V'')
                          @ replicate (count_pref ''non-vegetarian'' prefs) (CHR ''N'')"
  from generate_Inr[OF assms(1)] have p: "prefs = fst (assign_preferences (length people) g)" by blast
  from generate_dishes[OF assms(1)] assms(2,3) obtain valid' ds' where
    m: "mset valid' = mset valid" and m2: "mset ds' = mset ds"
    and d: "dishes = map entry (zip valid' ds')"
    unfolding ds_def by auto
  from m have l1: "length valid' = length valid" by (rule mset_eq_length)
  from mset_eq_length[OF m2] have l2: "length ds' = length people"
    unfolding ds_def p using dishes_to_place_length[of "length people" g] by simp
  have sn: "map snd (zip valid' ds') = take (length valid) ds'"
    by (simp add: map_snd_zip_take l1 min_def)
  have cnt: "length (find_dishes_by_type dishes t) = length (filter (\<lambda>d. dish_type_name d = t) (take (length valid) ds'))" for t
    unfolding d find_dishes_count sn ..
  have tot: "length (filter (\<lambda>d. dish_type_name d = t) ds') = length (filter (\<lambda>d. dish_type_name d = t) ds)" for t
    using m2 by (rule count_mset_eq)
  have V: "length (filter (\<lambda>d. dish_type_name d = ''vegan'') ds) = count_pref ''vegan'' prefs"
    unfolding ds_def by (rule count_replicate_V)
  have N: "length (filter (\<lambda>d. dish_type_name d = ''non-vegetarian'') ds) = count_pref ''non-vegetarian'' prefs"
    unfolding ds_def by (rule count_replicate_N)
  have le: "length (find_dishes_by_type dishes t) \<le> length (filter (\<lambda>d. dish_type_name d = t) ds)" for t
    unfolding cnt tot[symmetric] by (rule filter_take_le)
  have eq: "length (find_dishes_by_type dishes t) = length (filter (\<lambda>d. dish_type_name d = t) ds)"
    if "length people \<le> length valid" for t
    unfolding cnt tot[symmetric] using that l2 by simp
  from le[of "''vegan''"] le[of "''non-vegetarian''"] eq[of "''vegan''"] eq[of "''non-vegetarian''"]
  show ?thesis unfolding V N by blast
qed

theorem dish_counts_bounded_witness:
  "generate_dishes_and_preferences [example_grid] 0 example_rooms example_people
     (set example_people) example_rng
   = Inr ([example_grid, example_served],
          1, [(1, ''vegan''), (2, ''non-vegetarian'')],
          [(2, 1, ''vegan''), (1, 1, ''non-vegetarian'')])
   \<and> example_rooms ''K'' = Some (\<lparr>start = Some 1, stop = Some 3\<rparr>, \<lparr>start = Some 1, stop = Some 3\<rparr>)
   \<and> valid_kitchen_positions ([example_grid] ! 0) \<lparr>start = Some 1, stop = Some 3\<rparr>
        \<lparr>start = Some 1, stop = Some 3\<rparr> (set example_people) = Inr [(1, 1), (1, 2), (2, 1)]
   \<and> length example_people \<le> length [(1 :: int, 1 :: int), (1, 2), (2, 1)]
   \<and> length (find_dishes_by_type [(2, 1, ''vegan''), (1, 1, ''non-vegetarian'')] ''vegan'')
       = count_pref ''vegan'' [(1, ''vegan''), (2, ''non-vegetarian'')]
   \<and> length (find_dishes_by_type [(2, 1, ''vegan''), (1, 1, ''non-vegetarian'')] ''non-vegetarian'')
       = count_pref ''non-vegetarian'' [(1, ''vegan''), (2, ''non-vegetarian'')]"
proof -
  have l: "length example_people \<le> length [(1 :: int, 1 :: int), (1, 2), (2, 1)]"
    by (simp add: example_people_def)
  from dish_counts_bounded[OF example_run example_kitchen example_scan_people] l
    example_run example_kitchen example_scan_people
  show ?thesis by blast
qed

section \<open>The returned grid\<close>

lemma dish_char:
  assumes "d \<in> set ds'" "mset ds' = mset (replicate a (CHR ''V'') @ replicate b (CHR ''N''))"
  shows "d = (if dish_type_name d = ''vegan'' then CHR ''V'' else CHR ''N'')"
proof -
  from assms(2) have "set ds' = set (replicate a (CHR ''V'') @ replicate b (CHR ''N''))"
    by (rule mset_eq_setD)
  with assms(1) have "d = CHR ''V'' \<or> d = CHR ''N''" by (auto split: if_splits)
  then show ?thesis by (auto simp: dish_type_name_def)
qed

lemma entry_cell:
  "(\<lambda>(row, col, t). cell_of G (row, col)) ` set (map entry pds) = cell_of G ` fst ` set pds"
  by (force simp: entry_def)

text \<open>
  Claim C4. The returned grid has the shape of the input grid and equals it at every
  coordinate whose cell no entry of the dish list addresses, indices being read as numpy
  reads them; the returned grid is a new array and the input array is unchanged after the
  call. When the kitchen slices start at non-negative indices, as a region within the grid
  bounds does, the returned grid equals the input grid at every coordinate \<open>(row, col)\<close>,
  \<open>row \<ge> 0\<close> and \<open>col \<ge> 0\<close>, that does not occur in the dish list, and each coordinate of
  the dish list holds the character of its entry (\<open>V\<close> for \<open>vegan\<close>, \<open>N\<close> for
  \<open>non-vegetarian\<close>).
\<close>

theorem returned_grid_frame:
  assumes "generate_dishes_and_preferences h grid rooms people occ g = Inr (h', gc, prefs, dishes)"
    and "rooms ''K'' = Some (kitchen_rows, kitchen_cols)"
    and "grid < length h"
  shows "map length (h' ! gc) = map length (h ! grid)
       \<and> (\<forall>row col.
            cell_of (h ! grid) (row, col)
              \<notin> (\<lambda>(r, c, t). cell_of (h ! grid) (r, c)) ` set dishes
            \<longrightarrow> grid_get (h' ! gc) row col = grid_get (h ! grid) row col)
       \<and> gc \<noteq> grid \<and> h' ! grid = h ! grid
       \<and> (start kitchen_rows = Some r0 \<and> 0 \<le> r0 \<and> start kitchen_cols = Some c0 \<and> 0 \<le> c0 \<longrightarrow>
            (\<forall>row col. 0 \<le> row \<longrightarrow> 0 \<le> col \<longrightarrow> (\<forall>t. (row, col, t) \<notin> set dishes)
               \<longrightarrow> grid_get (h' ! gc) row col = grid_get (h ! grid) row col)
          \<and> (\<forall>(row, col, t) \<in> set dishes.
               grid_get (h' ! gc) row col = Inr (if t = ''vegan'' then CHR ''V'' else CHR ''N'')))"
proof -
  define G where "G = h ! grid"
  from generate_Inr[OF assms(1)] assms(2) obtain valid valid' ds' where
    v: "valid_kitchen_positions G kitchen_rows kitchen_cols occ = Inr valid"
    and m: "mset valid' = mset valid"
    and m2: "mset ds' = mset (replicate (count_pref ''vegan'' prefs) (CHR ''V'')
                          @ replicate (count_pref ''non-vegetarian'' prefs) (CHR ''N''))"
    and gc: "gc = length h"
    and p: "place_dishes valid' (length h) (List.enumerate 0 ds') (h @ [G], []) = Inr (h', dishes)"
    unfolding G_def by auto
  have lt: "length h < length (h @ [G])" by simp
  have s0: "map length ((h @ [G]) ! length h) = map length G" by simp
  from place_dishes_result[OF p lt] have
    sh: "map length (h' ! gc) = map length G"
    and fr: "\<forall>a. a \<noteq> length h \<longrightarrow> h' ! a = (h @ [G]) ! a"
    and d: "dishes = map entry (zip valid' ds')"
    by (simp_all add: gc)
  from place_dishes_cells[OF p lt s0] have
    A: "\<And>i j. Some (i, j) \<notin> cell_of G ` fst ` set (zip valid' ds') \<Longrightarrow> h' ! gc ! i ! j = G ! i ! j"
    and B: "distinct (map (cell_of G) valid') \<Longrightarrow> pd \<in> set (zip valid' ds')
              \<Longrightarrow> \<exists>i j. cell_of G (fst pd) = Some (i, j) \<and> h' ! gc ! i ! j = snd pd" for pd
    by (simp_all add: gc)
  have img: "(\<lambda>(r, c, t). cell_of G (r, c)) ` set dishes = cell_of G ` fst ` set (zip valid' ds')"
    unfolding d by (rule entry_cell)
  have 1: "grid_get (h' ! gc) row col = grid_get G row col"
    if "cell_of G (row, col) \<notin> (\<lambda>(r, c, t). cell_of G (r, c)) ` set dishes" for row col
  proof (cases "cell_of G (row, col)")
    case None
    with cell_of_shape[OF sh, of "(row, col)"] show ?thesis by (simp add: grid_get_cell)
  next
    case (Some ij)
    obtain i j where ij: "ij = (i, j)" by (cases ij)
    from that Some ij img have "Some (i, j) \<notin> cell_of G ` fst ` set (zip valid' ds')" by simp
    from A[OF this] Some ij cell_of_shape[OF sh, of "(row, col)"] show ?thesis
      by (simp add: grid_get_cell)
  qed
  from assms(3) fr have 2: "gc \<noteq> grid \<and> h' ! grid = h ! grid"
    by (simp add: gc nth_append G_def)
  have 3: "(\<forall>row col. 0 \<le> row \<longrightarrow> 0 \<le> col \<longrightarrow> (\<forall>t. (row, col, t) \<notin> set dishes)
               \<longrightarrow> grid_get (h' ! gc) row col = grid_get G row col)
          \<and> (\<forall>(row, col, t) \<in> set dishes.
               grid_get (h' ! gc) row col = Inr (if t = ''vegan'' then CHR ''V'' else CHR ''N''))"
    if st: "start kitchen_rows = Some r0" "0 \<le> r0" "start kitchen_cols = Some c0" "0 \<le> c0"
  proof -
    from m have sv: "set valid' = set valid" by (rule mset_eq_setD)
    have cell: "0 \<le> fst q \<and> 0 \<le> snd q \<and> cell_of G q = Some (nat (fst q), nat (snd q))"
      if "q \<in> set valid'" for q
    proof -
      from that valid_member[OF v, of q] have
        e: "eligible G occ q" and r: "fst q \<in> set (indices_of kitchen_rows)"
        and c: "snd q \<in> set (indices_of kitchen_cols)" by (simp_all add: sv)
      from r c st have nn: "0 \<le> fst q" "0 \<le> snd q" by (auto simp: in_indices_of)
      from e have "grid_get G (fst q) (snd q) = Inr (CHR ''K'')" by (simp add: eligible_def)
      then have "cell_of G (fst q, snd q) \<noteq> None"
        by (cases "cell_of G (fst q, snd q)") (simp_all add: grid_get_cell)
      with cell_of_nonneg[OF nn, of G] have "cell_of G (fst q, snd q) = Some (nat (fst q), nat (snd q))"
        by (simp split: if_splits)
      with nn show ?thesis by simp
    qed
    have inj: "inj_on (cell_of G) (set valid')"
    proof (rule inj_onI)
      fix p q assume "p \<in> set valid'" "q \<in> set valid'" "cell_of G p = cell_of G q"
      with cell[of p] cell[of q] have "nat (fst p) = nat (fst q)" "nat (snd p) = nat (snd q)"
        "0 \<le> fst p" "0 \<le> fst q" "0 \<le> snd p" "0 \<le> snd q" by simp_all
      then show "p = q" by (simp add: prod_eq_iff eq_nat_nat_iff)
    qed
    from distinct_valid_kitchen_positions[OF v] m have "distinct valid'"
      using mset_eq_imp_distinct_iff by blast
    with inj have dc: "distinct (map (cell_of G) valid')" by (simp add: distinct_map)
    have a: "grid_get (h' ! gc) row col = grid_get G row col"
      if "0 \<le> row" "0 \<le> col" "\<forall>t. (row, col, t) \<notin> set dishes" for row col
    proof (rule 1, rule notI)
      assume "cell_of G (row, col) \<in> (\<lambda>(r, c, t). cell_of G (r, c)) ` set dishes"
      then obtain q x where pd: "(q, x) \<in> set (zip valid' ds')" and e: "cell_of G (row, col) = cell_of G q"
        unfolding img by auto
      from cell[OF set_zip_leftD[OF pd]] e have
        "cell_of G (row, col) = Some (nat (fst q), nat (snd q))" "0 \<le> fst q" "0 \<le> snd q" by simp_all
      with cell_of_nonneg[OF that(1,2), of G] that(1,2) have "q = (row, col)"
        by (simp add: prod_eq_iff eq_nat_nat_iff split: if_splits)
      with pd have "entry ((row, col), x) \<in> set dishes" unfolding d by force
      with that(3) show False by (simp add: entry_def)
    qed
    have b: "grid_get (h' ! gc) row col = Inr (if t = ''vegan'' then CHR ''V'' else CHR ''N'')"
      if "(row, col, t) \<in> set dishes" for row col t
    proof -
      from that d obtain q x where pd: "(q, x) \<in> set (zip valid' ds')"
        and e: "entry (q, x) = (row, col, t)" by auto
      from e have q: "q = (row, col)" and t: "t = dish_type_name x"
        by (cases q; simp add: entry_def)+
      from B[OF dc pd] q obtain i j where
        c: "cell_of G (row, col) = Some (i, j)" and x: "h' ! gc ! i ! j = x" by auto
      from c cell_of_shape[OF sh, of "(row, col)"] x
      have "grid_get (h' ! gc) row col = Inr x" by (simp add: grid_get_cell)
      also from dish_char[OF set_zip_rightD[OF pd] m2] t
      have "x = (if t = ''vegan'' then CHR ''V'' else CHR ''N'')" by simp
      finally show ?thesis .
    qed
    from a b show ?thesis by blast
  qed
  from sh 1 2 3 show ?thesis unfolding G_def by blast
qed

text \<open>
  The run with five people: the counter at \<open>(2, 2)\<close>, also addressed as \<open>(-2, 2)\<close>, is
  not in the dish list and is as it was; the entry \<open>(1, 2, vegan)\<close> reads \<open>V\<close>.
\<close>

theorem returned_grid_frame_witness:
  "generate_dishes_and_preferences [example_grid] 0 example_rooms example_crowd
     (set example_crowd) example_rng
   = Inr ([example_grid, example_crowd_served],
          1, [(1, ''vegan''), (2, ''non-vegetarian''), (3, ''vegan''),
              (4, ''non-vegetarian''), (5, ''vegan'')],
          [(1, 2, ''vegan''), (1, 1, ''non-vegetarian''), (2, 1, ''non-vegetarian'')])
   \<and> example_rooms ''K'' = Some (\<lparr>start = Some 1, stop = Some 3\<rparr>, \<lparr>start = Some 1, stop = Some 3\<rparr>)
   \<and> (0 :: nat) < length [example_grid]
   \<and> map length ([example_grid, example_crowd_served] ! 1) = map length ([example_grid] ! 0)
   \<and> cell_of ([example_grid] ! 0) (- 2, 2)
       \<notin> (\<lambda>(r, c, t). cell_of ([example_grid] ! 0) (r, c)) ` set [(1 :: int, 2 :: int, ''vegan''), (1, 1, ''non-vegetarian''), (2, 1, ''non-vegetarian'')]
   \<and> grid_get ([example_grid, example_crowd_served] ! 1) (- 2) 2 = grid_get ([example_grid] ! 0) (- 2) 2
   \<and> (1 :: nat) \<noteq> 0
   \<and> [example_grid, example_crowd_served] ! 0 = [example_grid] ! 0
   \<and> start \<lparr>start = Some 1, stop = Some 3\<rparr> = Some 1 \<and> (0 :: int) \<le> 1
   \<and> (0 :: int) \<le> 2
   \<and> (\<forall>t. (2, 2, t) \<notin> set [(1 :: int, 2 :: int, ''vegan''), (1, 1, ''non-vegetarian''), (2, 1, ''non-vegetarian'')])
   \<and> grid_get ([example_grid, example_crowd_served] ! 1) 2 2 = grid_get ([example_grid] ! 0) 2 2
   \<and> (1, 2, ''vegan'') \<in> set [(1 :: int, 2 :: int, ''vegan''), (1, 1, ''non-vegetarian''), (2, 1, ''non-vegetarian'')]
   \<and> grid_get ([example_grid, example_crowd_served] ! 1) 1 2 = Inr (if ''vegan'' = ''vegan'' then CHR ''V'' else CHR ''N'')"
proof -
  have a: "(0 :: nat) < length [example_grid]" by simp
  have s: "start \<lparr>start = Some 1, stop = Some 3\<rparr> = Some 1" by simp
  have z: "(0 :: int) \<le> 1" by simp
  have t: "(0 :: int) \<le> 2" by simp
  have c: "cell_of ([example_grid] ! 0) (- 2, 2)
       \<notin> (\<lambda>(r, c, t). cell_of ([example_grid] ! 0) (r, c)) ` set [(1 :: int, 2 :: int, ''vegan''), (1, 1, ''non-vegetarian''), (2, 1, ''non-vegetarian'')]"
    by code_simp
  have n: "\<forall>t. (2, 2, t) \<notin> set [(1 :: int, 2 :: int, ''vegan''), (1, 1, ''non-vegetarian''), (2, 1, ''non-vegetarian'')]" by simp
  have m: "(1, 2, ''vegan'') \<in> set [(1 :: int, 2 :: int, ''vegan''), (1, 1, ''non-vegetarian''), (2, 1, ''non-vegetarian'')]" by simp
  note f = returned_grid_frame[where ?r0.0 = 1 and ?c0.0 = 1, OF example_crowd_run example_kitchen a]
  from f have 1: "map length ([example_grid, example_crowd_served] ! 1) = map length ([example_grid] ! 0)"
    by blast
  from f c have 2: "grid_get ([example_grid, example_crowd_served] ! 1) (- 2) 2 = grid_get ([example_grid] ! 0) (- 2) 2"
    by blast
  from f have 3: "(1 :: nat) \<noteq> 0" "[example_grid, example_crowd_served] ! 0 = [example_grid] ! 0"
    by blast+
  from f s z have p:
    "(\<forall>row col. 0 \<le> row \<longrightarrow> 0 \<le> col \<longrightarrow> (\<forall>t. (row, col, t) \<notin> set [(1 :: int, 2 :: int, ''vegan''), (1, 1, ''non-vegetarian''), (2, 1, ''non-vegetarian'')])
        \<longrightarrow> grid_get ([example_grid, example_crowd_served] ! 1) row col = grid_get ([example_grid] ! 0) row col)
     \<and> (\<forall>(row, col, t) \<in> set [(1 :: int, 2 :: int, ''vegan''), (1, 1, ''non-vegetarian''), (2, 1, ''non-vegetarian'')].
          grid_get ([example_grid, example_crowd_served] ! 1) row col = Inr (if t = ''vegan'' then CHR ''V'' else CHR ''N''))"
    by blast
  from p t n have 4: "grid_get ([example_grid, example_crowd_served] ! 1) 2 2 = grid_get ([example_grid] ! 0) 2 2"
    by blast
  from p m have 5: "grid_get ([example_grid, example_crowd_served] ! 1) 1 2 = Inr (if ''vegan'' = ''vegan'' then CHR ''V'' else CHR ''N'')"
    by fast
  from example_crowd_run example_kitchen a 1 c 2 3 s z t n 4 m 5 show ?thesis by blast
qed

end
